
theory Spec2Isabelle
  imports
    Main
    "HOL-Library.AList"
    "HOL-Library.Option_ord"
    "HOL-Library.Product_Lexorder"
    "HOL-Library.Sublist"
begin

section \<open>Finalizers and after-fork hooks of \<^verbatim>\<open>Lib/multiprocessing/util.py\<close>\<close>

text \<open>
  The module keeps two process-wide registries (\<^verbatim>\<open>_finalizer_registry\<close>, a dict, and
  \<^verbatim>\<open>_afterfork_registry\<close>, a weak-value dict), two counters and the flag \<^verbatim>\<open>_exiting\<close>.
  The model threads them through every function as a record. A dict is an association
  list in insertion order with distinct keys, as Python iterates it. \<^verbatim>\<open>Finalize\<close>
  instances are mutable and shared between the registry and the caller's handle, so
  they live in a store (\<open>objs\<close>) and are named by their index there.

  The model covers a module whose globals are live: the interpreter-teardown state in
  which \<^verbatim>\<open>_finalizer_registry\<close> itself is \<^verbatim>\<open>None\<close> (first guard of
  \<^verbatim>\<open>_run_finalizers\<close>, which then returns at once) is outside it.
\<close>

subsection \<open>Values, exceptions, callbacks\<close>

text \<open>
  Python values as far as the module inspects them. \<open>PyFloat\<close> carries the literal;
  only its type matters here. \<open>PyObj\<close> is a reference to an object by identity.
\<close>

datatype pyval = PyNone | PyBool bool | PyInt int | PyFloat string | PyStr string | PyObj nat

text \<open>
  Exceptions by class. \<^verbatim>\<open>except Exception\<close> catches the classes deriving from
  \<^verbatim>\<open>Exception\<close>; \<^verbatim>\<open>SystemExit\<close>, \<^verbatim>\<open>KeyboardInterrupt\<close> and other direct subclasses of
  \<^verbatim>\<open>BaseException\<close> pass through it.
\<close>

datatype exn =
    TypeError
  | ValueError
  | Exception_subclass string
  | SystemExit
  | KeyboardInterrupt
  | BaseException_subclass string

fun is_Exception :: "exn \<Rightarrow> bool" where
  "is_Exception TypeError = True"
| "is_Exception ValueError = True"
| "is_Exception (Exception_subclass n) = True"
| "is_Exception SystemExit = False"
| "is_Exception KeyboardInterrupt = False"
| "is_Exception (BaseException_subclass n) = False"

text \<open>\<^verbatim>\<open>isinstance(x, int)\<close>: \<^verbatim>\<open>bool\<close> is a subclass of \<^verbatim>\<open>int\<close>.\<close>

fun isinstance_int :: "pyval \<Rightarrow> bool" where
  "isinstance_int (PyInt i) = True"
| "isinstance_int (PyBool b) = True"
| "isinstance_int v = False"

text \<open>
  The priority as it compares and hashes inside a key: \<^verbatim>\<open>True == 1\<close>,
  \<^verbatim>\<open>False == 0\<close>.
\<close>

fun priority_of :: "pyval \<Rightarrow> int option" where
  "priority_of (PyInt i) = Some i"
| "priority_of (PyBool b) = Some (if b then 1 else 0)"
| "priority_of v = None"

text \<open>
  An object passed as \<^verbatim>\<open>obj\<close>: its identity (\<^verbatim>\<open>id(obj)\<close>) and whether its type
  supports weak references (\<^verbatim>\<open>weakref.ref\<close> raises \<^verbatim>\<open>TypeError\<close> on an \<^verbatim>\<open>int\<close>, a
  \<^verbatim>\<open>str\<close>, a \<^verbatim>\<open>tuple\<close>, ...).
\<close>

datatype owner = Owner (ident: nat) (weakrefable: bool)

type_synonym callback = string
type_synonym kwargs = "(string \<times> pyval) list"
type_synonym key = "int option \<times> nat"

text \<open>
  The instance attributes of a \<^verbatim>\<open>Finalize\<close> object; \<open>None\<close> is Python's \<^verbatim>\<open>None\<close>
  (for \<open>fin_weakref\<close> also: attribute never set).
\<close>

record finalize =
  fin_weakref :: "nat option"
  fin_callback :: "callback option"
  fin_args :: "pyval list option"
  fin_kwargs :: "kwargs option"
  fin_key :: "key option"
  fin_pid :: int

text \<open>A child process as the exit function sees it: \<^verbatim>\<open>p.name\<close>, \<^verbatim>\<open>p.daemon\<close>.\<close>

record child =
  p_name :: string
  p_daemon :: bool

record world =
  finalizer_registry :: "(key \<times> nat) list"
  finalizer_counter :: nat
  objs :: "finalize list"
  afterfork_registry :: "((nat \<times> nat \<times> callback) \<times> owner) list"
  afterfork_counter :: nat
  exiting :: "bool option"
  getpid :: int
  current_process :: bool
  active_children :: "child list"

text \<open>
  What a user callback does is not in the module: it is a parameter, a function from
  the callback, its arguments and the world to an outcome (a value, or a raised
  exception) and the world it leaves. A callback may change the world in any way, the
  registries included.
\<close>

type_synonym callbacks =
  "callback \<Rightarrow> pyval list \<Rightarrow> kwargs \<Rightarrow> world \<Rightarrow> (exn + pyval) \<times> world"

text \<open>
  The trace of what the module does to the outside: its log lines (by format string),
  the callbacks it applies (\<open>Apply\<close> for a finalizer's, \<open>After_forker\<close> for an
  after-fork hook's, each with the outcome of the call), the tracebacks it prints, the
  children it terminates and joins. \<open>Calling k h\<close> is the line \<^verbatim>\<open>sub_debug('calling %s', finalizer)\<close> of the batch
  runner for the key \<open>k\<close> and the finalizer \<open>h\<close> found under it.
\<close>

datatype event =
    Log string
  | Apply nat callback "pyval list" kwargs "exn + pyval"
  | Calling key nat
  | Print_exc exn
  | After_forker callback nat "exn + pyval"
  | After_forker_raised exn
  | Terminate string
  | Join string

type_synonym 'a result = "(exn + 'a) \<times> world \<times> event list"

definition emit :: "event list \<Rightarrow> 'a result \<Rightarrow> 'a result" where
  "emit evs r = (case r of (x, w, evs') \<Rightarrow> (x, w, evs @ evs'))"

subsection \<open>\<^verbatim>\<open>Finalize\<close>\<close>

text \<open>
  Lines 264 to 270 of \<^verbatim>\<open>Finalize.__init__\<close>: the attributes are set, the key takes
  the next value of the counter, the object is stored under its key.
\<close>

definition Finalize_store ::
  "owner option \<Rightarrow> callback \<Rightarrow> pyval list \<Rightarrow> kwargs option \<Rightarrow> pyval \<Rightarrow> world
    \<Rightarrow> (exn + nat) \<times> world" where
  "Finalize_store obj callback args kwargs exitpriority w =
    (let k = (priority_of exitpriority, finalizer_counter w);
         self = length (objs w);
         fin = \<lparr> fin_weakref = map_option ident obj,
                 fin_callback = Some callback,
                 fin_args = Some args,
                 fin_kwargs = Some (case kwargs of None \<Rightarrow> [] | Some kw \<Rightarrow> kw),
                 fin_key = Some k,
                 fin_pid = getpid w \<rparr>
     in (Inr self,
         w\<lparr> objs := objs w @ [fin],
            finalizer_counter := Suc (finalizer_counter w),
            finalizer_registry := AList.update k self (finalizer_registry w) \<rparr>))"

text \<open>
  \<^verbatim>\<open>Finalize.__init__\<close>. The three failures leave the world as it was: the counter is
  read only after them. The result is the index of the new object.
\<close>

definition Finalize_init ::
  "owner option \<Rightarrow> callback \<Rightarrow> pyval list \<Rightarrow> kwargs option \<Rightarrow> pyval \<Rightarrow> world
    \<Rightarrow> (exn + nat) \<times> world" where
  "Finalize_init obj callback args kwargs exitpriority w =
    (if exitpriority \<noteq> PyNone \<and> \<not> isinstance_int exitpriority then (Inl TypeError, w)
     else
       (case obj of
          Some ob \<Rightarrow>
            if weakrefable ob then Finalize_store obj callback args kwargs exitpriority w
            else (Inl TypeError, w)
        | None \<Rightarrow>
            if exitpriority = PyNone then (Inl ValueError, w)
            else Finalize_store obj callback args kwargs exitpriority w))"

text \<open>
  The chained assignment \<^verbatim>\<open>self._weakref = ... = self._key = None\<close> at the end of
  \<^verbatim>\<open>__call__\<close> and \<^verbatim>\<open>cancel\<close>.
\<close>

definition clear_fields :: "nat \<Rightarrow> world \<Rightarrow> world" where
  "clear_fields self w =
    w\<lparr> objs := (objs w)[self := (objs w ! self)
          \<lparr> fin_weakref := None, fin_callback := None, fin_args := None,
            fin_kwargs := None, fin_key := None \<rparr>] \<rparr>"

text \<open>
  \<^verbatim>\<open>del _finalizer_registry[self._key]\<close>: the key deleted, or \<open>None\<close> for
  \<^verbatim>\<open>KeyError\<close> (also when \<^verbatim>\<open>self._key\<close> is \<^verbatim>\<open>None\<close>, which is never a key).
\<close>

definition del_key :: "finalize \<Rightarrow> world \<Rightarrow> (key \<times> world) option" where
  "del_key fin w =
    (case fin_key fin of
       None \<Rightarrow> None
     | Some k \<Rightarrow>
         (case map_of (finalizer_registry w) k of
            None \<Rightarrow> None
          | Some h \<Rightarrow> Some (k, w\<lparr> finalizer_registry := AList.delete k (finalizer_registry w) \<rparr>)))"

text \<open>
  \<^verbatim>\<open>Finalize.__call__\<close> on the object at \<open>self\<close>. When the callback raises, control
  leaves the \<^verbatim>\<open>else\<close> block before the attributes are cleared. An index that names no
  object cannot be called in Python; the model returns \<^verbatim>\<open>None\<close> there and does
  nothing.
\<close>

definition Finalize_call :: "callbacks \<Rightarrow> nat \<Rightarrow> world \<Rightarrow> pyval result" where
  "Finalize_call run self w =
    (if length (objs w) \<le> self then (Inr PyNone, w, [])
     else
       let fin = objs w ! self in
       (case del_key fin w of
          None \<Rightarrow> (Inr PyNone, w, [Log ''finalizer no longer registered''])
        | Some (k, w1) \<Rightarrow>
            if fin_pid fin \<noteq> getpid w1 then
              (Inr PyNone, clear_fields self w1,
               [Log ''finalizer ignored because different process''])
            else
              (case (fin_callback fin, fin_args fin, fin_kwargs fin) of
                 (Some cb, Some args, Some kw) \<Rightarrow>
                   (case run cb args kw w1 of
                      (Inl e, w2) \<Rightarrow>
                        (Inl e, w2,
                         [Log ''finalizer calling %s with args %s and kwargs %s'',
                          Apply self cb args kw (Inl e)])
                    | (Inr res, w2) \<Rightarrow>
                        (Inr res, clear_fields self w2,
                         [Log ''finalizer calling %s with args %s and kwargs %s'',
                          Apply self cb args kw (Inr res)]))
               | _ \<Rightarrow>
                   (Inl TypeError, w1,
                    [Log ''finalizer calling %s with args %s and kwargs %s'']))))"

text \<open>\<^verbatim>\<open>Finalize.cancel\<close>.\<close>

definition Finalize_cancel :: "nat \<Rightarrow> world \<Rightarrow> world" where
  "Finalize_cancel self w =
    (if length (objs w) \<le> self then w
     else
       (case del_key (objs w ! self) w of
          None \<Rightarrow> w
        | Some (k, w1) \<Rightarrow> clear_fields self w1))"

text \<open>\<^verbatim>\<open>Finalize.still_active\<close>.\<close>

definition still_active :: "nat \<Rightarrow> world \<Rightarrow> bool" where
  "still_active self w =
    (self < length (objs w) \<and>
     (case fin_key (objs w ! self) of
        None \<Rightarrow> False
      | Some k \<Rightarrow> map_of (finalizer_registry w) k \<noteq> None))"

subsection \<open>\<^verbatim>\<open>_run_finalizers\<close>\<close>

text \<open>The filter \<^verbatim>\<open>f\<close> on keys.\<close>

definition selected :: "int option \<Rightarrow> key \<Rightarrow> bool" where
  "selected minpriority p =
    (case minpriority of
       None \<Rightarrow> fst p \<noteq> None
     | Some m \<Rightarrow> (case fst p of None \<Rightarrow> False | Some q \<Rightarrow> m \<le> q))"

text \<open>
  \<^verbatim>\<open>keys = [key for key in list(_finalizer_registry) if f(key)]; keys.sort(reverse=True)\<close>.
  Tuples compare lexicographically; the keys of a dict are distinct, so the stable
  descending sort is the ascending sort reversed.
\<close>

definition sorted_keys :: "int option \<Rightarrow> world \<Rightarrow> key list" where
  "sorted_keys minpriority w =
    rev (sort (filter (selected minpriority) (map fst (finalizer_registry w))))"

text \<open>
  The loop over \<^verbatim>\<open>keys\<close>: the entry is fetched again at its turn, an exception that
  derives from \<^verbatim>\<open>Exception\<close> is printed and the loop goes on, any other leaves the
  function.
\<close>

fun run_keys :: "callbacks \<Rightarrow> key list \<Rightarrow> world \<Rightarrow> unit result" where
  "run_keys run [] w = (Inr (), w, [])"
| "run_keys run (k # ks) w =
    (case map_of (finalizer_registry w) k of
       None \<Rightarrow> run_keys run ks w
     | Some finalizer \<Rightarrow>
         (case Finalize_call run finalizer w of
            (Inl e, w', evs) \<Rightarrow>
              if is_Exception e then
                emit (Calling k finalizer # evs @ [Print_exc e]) (run_keys run ks w')
              else (Inl e, w', Calling k finalizer # evs)
          | (Inr res, w', evs) \<Rightarrow>
              emit (Calling k finalizer # evs) (run_keys run ks w')))"

definition run_finalizers :: "callbacks \<Rightarrow> int option \<Rightarrow> world \<Rightarrow> unit result" where
  "run_finalizers run minpriority w =
    (case run_keys run (sorted_keys minpriority w) w of
       (Inl e, w', evs) \<Rightarrow> (Inl e, w', evs)
     | (Inr u, w', evs) \<Rightarrow>
         (Inr (), if minpriority = None then w'\<lparr> finalizer_registry := [] \<rparr> else w', evs))"

subsection \<open>After-fork hooks\<close>





subsection \<open>Exit\<close>


text \<open>
  The two loops of \<^verbatim>\<open>_exit_function\<close> over \<^verbatim>\<open>active_children()\<close>, run only when
  \<^verbatim>\<open>current_process()\<close> is not \<^verbatim>\<open>None\<close>. The process table is a collaborator:
  \<^verbatim>\<open>terminate\<close> leaves the child in the table, \<^verbatim>\<open>join\<close> returns when the child has
  exited, which takes it out.
\<close>

definition exit_children :: "world \<Rightarrow> world \<times> event list" where
  "exit_children w =
    (if current_process w then
       (w\<lparr> active_children := [] \<rparr>,
        concat (map (\<lambda>p. if p_daemon p
                          then [Log ''calling terminate() for daemon %s'', Terminate (p_name p)]
                          else []) (active_children w)) @
        concat (map (\<lambda>p. [Log ''calling join() for process %s'', Join (p_name p)])
                 (active_children w)))
     else (w, []))"


subsection \<open>Sequences of operations on the finalizer registry\<close>

text \<open>
  A caller that invokes and cancels finalizers and runs batches, one operation after
  the other, going on after an operation that raised.
\<close>

datatype op = Invoke nat | Cancel nat | Run_finalizers "int option"

fun exec_op :: "callbacks \<Rightarrow> op \<Rightarrow> world \<Rightarrow> world \<times> event list" where
  "exec_op run (Invoke h) w = snd (Finalize_call run h w)"
| "exec_op run (Cancel h) w = (Finalize_cancel h w, [])"
| "exec_op run (Run_finalizers m) w = snd (run_finalizers run m w)"

fun exec_ops :: "callbacks \<Rightarrow> op list \<Rightarrow> world \<Rightarrow> world \<times> event list" where
  "exec_ops run [] w = (w, [])"
| "exec_ops run (x # xs) w =
    (case exec_op run x w of
       (w', evs) \<Rightarrow> (case exec_ops run xs w' of (w'', evs') \<Rightarrow> (w'', evs @ evs')))"

subsection \<open>Observations on a trace\<close>

text \<open>
  How often the callback of the finalizer \<open>h\<close> is applied in a trace.
\<close>

fun applies :: "nat \<Rightarrow> event \<Rightarrow> bool" where
  "applies h (Apply h' cb args kw r) = (h' = h)"
| "applies h e = False"

definition applications :: "nat \<Rightarrow> event list \<Rightarrow> nat" where
  "applications h evs = length (filter (applies h) evs)"

text \<open>
  The finalizers a batch run invoked, in order, each with the key it was found under.
\<close>

fun invocation :: "event \<Rightarrow> (key \<times> nat) list" where
  "invocation (Calling k h) = [(k, h)]"
| "invocation e = []"

definition invocations :: "event list \<Rightarrow> (key \<times> nat) list" where
  "invocations evs = concat (map invocation evs)"

text \<open>
  The after-fork hooks a run applied, in order, each with the identity of its object.
\<close>

fun fork_call :: "event \<Rightarrow> (callback \<times> nat) list" where
  "fork_call (After_forker func i r) = [(func, i)]"
| "fork_call e = []"

definition forked :: "event list \<Rightarrow> (callback \<times> nat) list" where
  "forked evs = concat (map fork_call evs)"

text \<open>
  The children terminated and the children joined in a trace, in order.
\<close>

fun terminate_of :: "event \<Rightarrow> string list" where
  "terminate_of (Terminate n) = [n]"
| "terminate_of e = []"

fun join_of :: "event \<Rightarrow> string list" where
  "join_of (Join n) = [n]"
| "join_of e = []"

definition terminated :: "event list \<Rightarrow> string list" where
  "terminated evs = concat (map terminate_of evs)"

definition joined :: "event list \<Rightarrow> string list" where
  "joined evs = concat (map join_of evs)"




subsection \<open>Conditions on callbacks and worlds\<close>

text \<open>
  A finalizer that exists and is no longer in the registry.
\<close>

definition removed :: "nat \<Rightarrow> world \<Rightarrow> bool" where
  "removed h w = (h < length (objs w) \<and> \<not> still_active h w)"

text \<open>
  Every key held by an object was drawn from the counter.
\<close>

definition keys_drawn :: "world \<Rightarrow> bool" where
  "keys_drawn w =
    (\<forall>fin \<in> set (objs w). \<forall>k. fin_key fin = Some k \<longrightarrow> snd k < finalizer_counter w)"

text \<open>
  Whatever a callback does through the module's interface (\<^verbatim>\<open>Finalize\<close>, \<^verbatim>\<open>__call__\<close>,
  \<^verbatim>\<open>cancel\<close>, \<^verbatim>\<open>_run_finalizers\<close>), it puts no removed key back: the interface only removes
  keys and adds keys newly drawn from the counter. Such callbacks keep the keys drawn, and
  keep a removed finalizer removed.
\<close>

definition keeps_removed :: "callbacks \<Rightarrow> bool" where
  "keeps_removed run =
    (\<forall>cb args kw w. keys_drawn w \<longrightarrow>
       keys_drawn (snd (run cb args kw w)) \<and>
       (\<forall>h. removed h w \<longrightarrow> removed h (snd (run cb args kw w))))"




text \<open>
  Every key of the registry was drawn from the counter: its sequence number is below the
  next value.
\<close>

definition counter_fresh :: "world \<Rightarrow> bool" where
  "counter_fresh w = (\<forall>k \<in> fst ` set (finalizer_registry w). snd k < finalizer_counter w)"

text \<open>
  The registry as \<^verbatim>\<open>Finalize.__init__\<close> builds it: distinct keys, and under each key an object
  that carries this key in \<^verbatim>\<open>_key\<close>.
\<close>

definition registry_consistent :: "world \<Rightarrow> bool" where
  "registry_consistent w =
    (distinct (map fst (finalizer_registry w)) \<and>
     (\<forall>p \<in> set (finalizer_registry w).
        snd p < length (objs w) \<and> fin_key (objs w ! snd p) = Some (fst p)))"


subsection \<open>The behaviour in the words of the specification\<close>



subsection \<open>Concrete worlds and callbacks\<close>

text \<open>
  The module after import, in the process 4711.
\<close>

definition world0 :: world where
  "world0 = \<lparr> finalizer_registry = [], finalizer_counter = 0, objs = [],
     afterfork_registry = [], afterfork_counter = 0, exiting = Some False,
     getpid = 4711, current_process = True, active_children = [] \<rparr>"

text \<open>
  Callbacks by name: \<^verbatim>\<open>boom\<close> raises a \<^verbatim>\<open>RuntimeError\<close>, \<^verbatim>\<open>quit\<close> raises
  \<^verbatim>\<open>SystemExit\<close>, \<^verbatim>\<open>cancel_first\<close> cancels the first finalizer ever created,
  \<^verbatim>\<open>register\<close> creates a finalizer of priority 0, every other callback just returns
  \<^verbatim>\<open>None\<close>.
\<close>

definition run_example :: callbacks where
  "run_example cb args kw w =
    (if cb = ''boom'' then (Inl (Exception_subclass ''RuntimeError''), w)
     else if cb = ''quit'' then (Inl SystemExit, w)
     else if cb = ''cancel_first'' then (Inr PyNone, Finalize_cancel 0 w)
     else if cb = ''register'' then
       (Inr PyNone, snd (Finalize_init None ''close'' [] None (PyInt 0) w))
     else (Inr PyNone, w))"


text \<open>
  \<^verbatim>\<open>Finalize(obj, cb, exitpriority=p)\<close> for each owner, callback and priority of a list, in
  order; a call that raises registers nothing.
\<close>

definition register_each :: "(owner option \<times> callback \<times> pyval) list \<Rightarrow> world \<Rightarrow> world" where
  "register_each regs w =
    foldl (\<lambda>w' (obj, cb, p). snd (Finalize_init obj cb [] None p w')) w regs"


text \<open>
  \<^verbatim>\<open>Finalize(None, close, args=(3,), exitpriority=0)\<close> in the fresh module.
\<close>

definition world1 :: world where
  "world1 = snd (Finalize_init None ''close'' [PyInt 3] None (PyInt 0) world0)"

text \<open>
  \<open>world1\<close> as a forked child sees it: the same registry, another process id.
\<close>

definition world1_child :: world where
  "world1_child = world1\<lparr> getpid := 4712 \<rparr>"

text \<open>
  A finalizer bound to the object 7 whose callback raises.
\<close>

definition world_boom :: world where
  "world_boom = snd (Finalize_init (Some (Owner 7 True)) ''boom'' [PyInt 3] None (PyInt 0) world0)"






text \<open>
  One finalizer, whose callback creates another one.
\<close>

definition world_register :: world where
  "world_register = register_each [(None, ''register'', PyInt 0)] world0"

section \<open>Properties\<close>

subsection \<open>Auxiliary facts\<close>

lemma map_of_delete_same: "map_of (AList.delete k al) k = None"
  by (simp add: AList.delete_conv')

lemma del_key_Some:
  "del_key fin w = Some (k, w1) \<Longrightarrow>
   fin_key fin = Some k \<and> map_of (finalizer_registry w) k \<noteq> None \<and>
   w1 = w\<lparr> finalizer_registry := AList.delete k (finalizer_registry w) \<rparr>"
  by (auto simp: del_key_def split: option.splits)

lemma applications_append [simp]:
  "applications h (xs @ ys) = applications h xs + applications h ys"
  by (simp add: applications_def)

lemma applications_simps [simp]:
  "applications h [] = 0"
  "applications h (Apply g cb args kw r # evs) = (if g = h then 1 else 0) + applications h evs"
  "applications h (Log s # evs) = applications h evs"
  "applications h (Calling k g # evs) = applications h evs"
  "applications h (Print_exc e # evs) = applications h evs"
  by (simp_all add: applications_def)

lemma emit_simps [simp]:
  "fst (emit evs r) = fst r"
  "fst (snd (emit evs r)) = fst (snd r)"
  "snd (snd (emit evs r)) = evs @ snd (snd r)"
  by (simp_all add: emit_def split: prod.splits)

lemma world1_eq:
  "world1 = world0\<lparr> finalizer_registry := [((Some 0, 0), 0)], finalizer_counter := 1,
      objs := [\<lparr> fin_weakref = None, fin_callback = Some ''close'', fin_args = Some [PyInt 3],
                 fin_kwargs = Some [], fin_key = Some (Some 0, 0), fin_pid = 4711 \<rparr>] \<rparr>"
  by (simp add: world1_def world0_def Finalize_init_def Finalize_store_def Let_def)

lemma world_boom_eq:
  "world_boom = world0\<lparr> finalizer_registry := [((Some 0, 0), 0)], finalizer_counter := 1,
      objs := [\<lparr> fin_weakref = Some 7, fin_callback = Some ''boom'', fin_args = Some [PyInt 3],
                 fin_kwargs = Some [], fin_key = Some (Some 0, 0), fin_pid = 4711 \<rparr>] \<rparr>"
  by (simp add: world_boom_def world0_def Finalize_init_def Finalize_store_def Let_def)

lemma Finalize_store_result:
  "Finalize_store obj cb args kwargs p w =
    (Inr (length (objs w)),
     w\<lparr> objs := objs w @
            [\<lparr> fin_weakref = map_option ident obj, fin_callback = Some cb, fin_args = Some args,
               fin_kwargs = Some (case kwargs of None \<Rightarrow> [] | Some kw \<Rightarrow> kw),
               fin_key = Some (priority_of p, finalizer_counter w), fin_pid = getpid w \<rparr>],
        finalizer_counter := Suc (finalizer_counter w),
        finalizer_registry :=
          AList.update (priority_of p, finalizer_counter w) (length (objs w))
            (finalizer_registry w) \<rparr>)"
  by (simp add: Finalize_store_def Let_def)

lemma counter_fresh_store:
  "counter_fresh w \<Longrightarrow> counter_fresh (snd (Finalize_store obj cb args kwargs p w))"
  by (auto simp: counter_fresh_def Finalize_store_result AList.dom_update less_Suc_eq)

lemma counter_fresh_new_key:
  "counter_fresh w \<Longrightarrow> (q, finalizer_counter w) \<notin> fst ` set (finalizer_registry w)"
  by (auto simp: counter_fresh_def)

lemma update_fresh: "k \<notin> fst ` set al \<Longrightarrow> AList.update k v al = al @ [(k, v)]"
  by (induction al) auto

lemma store_active:
  "still_active (length (objs w)) (snd (Finalize_store obj cb args kwargs p w))"
  by (simp add: Finalize_store_result still_active_def AList.update_conv')

lemma store_lookup:
  "map_of (finalizer_registry (snd (Finalize_store obj cb args kwargs p w)))
        (priority_of p, finalizer_counter w) = Some (length (objs w))"
  by (simp add: Finalize_store_result AList.update_conv')

lemma store_append:
  "counter_fresh w \<Longrightarrow>
      finalizer_registry (snd (Finalize_store obj cb args kwargs p w))
        = finalizer_registry w @ [((priority_of p, finalizer_counter w), length (objs w))]"
  using counter_fresh_new_key [of w "priority_of p"]
  by (simp add: Finalize_store_result update_fresh)

lemma store_fields:
  "fst (Finalize_store obj cb args kwargs p w) = Inr (length (objs w))"
  "finalizer_counter (snd (Finalize_store obj cb args kwargs p w)) = Suc (finalizer_counter w)"
  "fin_key (objs (snd (Finalize_store obj cb args kwargs p w)) ! length (objs w))
     = Some (priority_of p, finalizer_counter w)"
  by (simp_all add: Finalize_store_result)

lemma init_cases:
  "Finalize_init obj cb args kwargs p w =
    (if p \<noteq> PyNone \<and> \<not> isinstance_int p then (Inl TypeError, w)
     else if obj = None \<and> p = PyNone then (Inl ValueError, w)
     else if (case obj of None \<Rightarrow> False | Some ob \<Rightarrow> \<not> weakrefable ob) then (Inl TypeError, w)
     else Finalize_store obj cb args kwargs p w)"
  by (simp add: Finalize_init_def split: option.splits)

lemma Finalize_call_cases [case_names invalid absent foreign broken raised returned]:
  obtains
    "length (objs w) \<le> h" and "Finalize_call run h w = (Inr PyNone, w, [])"
  | "h < length (objs w)" and "del_key (objs w ! h) w = None"
      and "Finalize_call run h w = (Inr PyNone, w, [Log ''finalizer no longer registered''])"
  | k w1 where "h < length (objs w)" and "del_key (objs w ! h) w = Some (k, w1)"
      and "fin_pid (objs w ! h) \<noteq> getpid w1"
      and "Finalize_call run h w
        = (Inr PyNone, clear_fields h w1, [Log ''finalizer ignored because different process''])"
  | k w1 where "h < length (objs w)" and "del_key (objs w ! h) w = Some (k, w1)"
      and "Finalize_call run h w
        = (Inl TypeError, w1, [Log ''finalizer calling %s with args %s and kwargs %s''])"
  | k w1 cb args kw e w2 where "h < length (objs w)"
      and "del_key (objs w ! h) w = Some (k, w1)"
      and "run cb args kw w1 = (Inl e, w2)"
      and "Finalize_call run h w
        = (Inl e, w2, [Log ''finalizer calling %s with args %s and kwargs %s'',
             Apply h cb args kw (Inl e)])"
  | k w1 cb args kw res w2 where "h < length (objs w)"
      and "del_key (objs w ! h) w = Some (k, w1)"
      and "run cb args kw w1 = (Inr res, w2)"
      and "Finalize_call run h w
        = (Inr res, clear_fields h w2,
           [Log ''finalizer calling %s with args %s and kwargs %s'',
             Apply h cb args kw (Inr res)])"
proof (cases "length (objs w) \<le> h")
  case True
  then show ?thesis using that(1) by (simp add: Finalize_call_def)
next
  case valid: False
  show ?thesis
  proof (cases "del_key (objs w ! h) w")
    case None
    with valid show ?thesis using that(2) by (simp add: Finalize_call_def)
  next
    case (Some kw1)
    obtain k w1 where kw1: "kw1 = (k, w1)" by (cases kw1)
    note d = Some [unfolded kw1]
    show ?thesis
    proof (cases "fin_pid (objs w ! h) \<noteq> getpid w1")
      case True
      with valid d show ?thesis using that(3) [of k w1] by (simp add: Finalize_call_def)
    next
      case same: False
      show ?thesis
      proof (cases "\<exists>cb args kw. fin_callback (objs w ! h) = Some cb \<and>
          fin_args (objs w ! h) = Some args \<and> fin_kwargs (objs w ! h) = Some kw")
        case False
        with valid d same have "Finalize_call run h w
            = (Inl TypeError, w1, [Log ''finalizer calling %s with args %s and kwargs %s''])"
          by (auto simp: Finalize_call_def Let_def split: option.splits)
        with valid d show ?thesis using that(4) [of k w1] by simp
      next
        case True
        then obtain cb args kw where f: "fin_callback (objs w ! h) = Some cb"
          "fin_args (objs w ! h) = Some args" "fin_kwargs (objs w ! h) = Some kw"
          by auto
        obtain r w2 where rw: "run cb args kw w1 = (r, w2)" by (cases "run cb args kw w1")
        show ?thesis
        proof (cases r)
          case (Inl e)
          with valid d same f rw show ?thesis using that(5) [of k w1 cb args kw e w2]
            by (simp add: Finalize_call_def)
        next
          case (Inr res)
          with valid d same f rw show ?thesis using that(6) [of k w1 cb args kw res w2]
            by (simp add: Finalize_call_def)
        qed
      qed
    qed
  qed
qed




lemma invocations_simps [simp]:
  "invocations [] = []"
  "invocations (Calling k h # evs) = (k, h) # invocations evs"
  "invocations (Log s # evs) = invocations evs"
  "invocations (Apply g cb args kw r # evs) = invocations evs"
  "invocations (Print_exc e # evs) = invocations evs"
  "invocations (xs @ ys) = invocations xs @ invocations ys"
  by (simp_all add: invocations_def)















lemma emit_tuple [simp]: "emit evs (x, w, evs') = (x, w, evs @ evs')"
  by (simp add: emit_def)















lemma forked_simps [simp]:
  "forked [] = []"
  "forked (After_forker func i r # evs) = (func, i) # forked evs"
  "forked (After_forker_raised e # evs) = forked evs"
  "forked (xs @ ys) = forked xs @ forked ys"
  by (simp_all add: forked_def)








lemma exiting_clear_fields [simp]: "exiting (clear_fields h w) = exiting w"
  by (simp add: clear_fields_def)






lemma exit_children_exiting [simp]: "exiting (fst (exit_children w)) = exiting w"
  by (simp add: exit_children_def)


lemma terminated_simps [simp]:
  "terminated [] = []"
  "terminated (Terminate n # evs) = n # terminated evs"
  "terminated (Join n # evs) = terminated evs"
  "terminated (Log s # evs) = terminated evs"
  "terminated (xs @ ys) = terminated xs @ terminated ys"
  by (simp_all add: terminated_def)

lemma joined_simps [simp]:
  "joined [] = []"
  "joined (Join n # evs) = n # joined evs"
  "joined (Terminate n # evs) = joined evs"
  "joined (Log s # evs) = joined evs"
  "joined (xs @ ys) = joined xs @ joined ys"
  by (simp_all add: joined_def)










lemma removed_delete:
  "removed h w \<Longrightarrow> removed h (w\<lparr> finalizer_registry := AList.delete k (finalizer_registry w) \<rparr>)"
  by (auto simp: removed_def still_active_def AList.delete_conv' split: option.splits)

lemma removed_clear_fields: "removed h w \<Longrightarrow> removed h (clear_fields g w)"
  by (cases "g = h") (auto simp: removed_def still_active_def clear_fields_def split: option.splits)

lemma removed_clear_fields_self: "h < length (objs w) \<Longrightarrow> removed h (clear_fields h w)"
  by (auto simp: removed_def still_active_def clear_fields_def split: option.splits)

lemma removed_registry_empty: "removed h w \<Longrightarrow> removed h (w\<lparr> finalizer_registry := [] \<rparr>)"
  by (auto simp: removed_def still_active_def split: option.splits)

lemma removed_after_del_key:
  assumes "h < length (objs w)" and "del_key (objs w ! h) w = Some (k, w1)"
  shows "removed h w1"
  using assms
  by (auto dest!: del_key_Some simp: removed_def still_active_def AList.delete_conv')

lemma removed_del_key_other:
  assumes "removed h w" and "del_key fin w = Some (k, w1)"
  shows "removed h w1"
  using assms by (auto dest!: del_key_Some simp: removed_delete)

lemma removed_no_del_key: "removed h w \<Longrightarrow> del_key (objs w ! h) w = None"
  by (auto simp: removed_def still_active_def del_key_def split: option.splits)

lemma keys_drawn_registry [simp]:
  "keys_drawn (w\<lparr> finalizer_registry := r \<rparr>) = keys_drawn w"
  by (simp add: keys_drawn_def)

lemma keys_drawn_del_key: "keys_drawn w \<Longrightarrow> del_key fin w = Some (k, w1) \<Longrightarrow> keys_drawn w1"
  by (auto dest!: del_key_Some)

lemma keys_drawn_clear_fields: "keys_drawn w \<Longrightarrow> keys_drawn (clear_fields h w)"
proof -
  assume k: "keys_drawn w"
  have "fin = x \<or> fin \<in> set (objs w)" if "fin \<in> set ((objs w)[h := x])" for fin x
    using that set_update_subset_insert [of "objs w" h x] by auto
  with k show ?thesis
    by (fastforce simp: keys_drawn_def clear_fields_def)
qed

lemma keeps_removedD:
  assumes "keeps_removed run" and "keys_drawn w" and "run cb args kw w = (r, w')"
  shows "keys_drawn w'" and "removed h w \<Longrightarrow> removed h w'"
proof -
  from assms(1,2) have "keys_drawn (snd (run cb args kw w)) \<and>
       (\<forall>h. removed h w \<longrightarrow> removed h (snd (run cb args kw w)))"
    unfolding keeps_removed_def by blast
  with assms(3) show "keys_drawn w'" and "removed h w \<Longrightarrow> removed h w'" by simp_all
qed

lemma call_step:
  assumes "keeps_removed run" and "keys_drawn w"
  shows "keys_drawn (fst (snd (Finalize_call run g w))) \<and>
    (removed h w \<longrightarrow>
       removed h (fst (snd (Finalize_call run g w))) \<and>
       applications h (snd (snd (Finalize_call run g w))) = 0) \<and>
    applications h (snd (snd (Finalize_call run g w))) \<le> 1 \<and>
    (0 < applications h (snd (snd (Finalize_call run g w))) \<longrightarrow>
       removed h (fst (snd (Finalize_call run g w))))"
proof (cases run g w rule: Finalize_call_cases)
  case invalid
  with assms(2) show ?thesis by simp
next
  case absent
  with assms(2) show ?thesis by simp
next
  case (foreign k w1)
  with assms(2) keys_drawn_del_key [of w "objs w ! g" k w1]
    removed_del_key_other [of h w "objs w ! g" k w1]
  show ?thesis by (auto simp: keys_drawn_clear_fields removed_clear_fields)
next
  case (broken k w1)
  with assms(2) keys_drawn_del_key [of w "objs w ! g" k w1]
    removed_del_key_other [of h w "objs w ! g" k w1]
  show ?thesis by auto
next
  case (raised k w1 cb args kw e w2)
  from assms(2) raised(2) have k1: "keys_drawn w1" by (rule keys_drawn_del_key)
  note cb = keeps_removedD [OF assms(1) k1 raised(3)]
  have other: "removed h w2" if "removed h w"
    using that raised(2) cb(2) by (auto dest: removed_del_key_other)
  have self: "removed h w2" if "g = h"
    using that raised(1,2) cb(2) by (auto dest: removed_after_del_key)
  have ne: "g \<noteq> h" if "removed h w"
    using that raised(2) by (auto dest: removed_no_del_key)
  from raised(4) cb(1) other self ne show ?thesis by auto
next
  case (returned k w1 cb args kw res w2)
  from assms(2) returned(2) have k1: "keys_drawn w1" by (rule keys_drawn_del_key)
  note cb = keeps_removedD [OF assms(1) k1 returned(3)]
  have other: "removed h (clear_fields g w2)" if "removed h w"
    using that returned(2) cb(2) by (auto dest: removed_del_key_other intro: removed_clear_fields)
  have self: "removed h (clear_fields g w2)" if "g = h"
    using that returned(1,2) cb(2)
    by (auto dest: removed_after_del_key intro: removed_clear_fields)
  have ne: "g \<noteq> h" if "removed h w"
    using that returned(2) by (auto dest: removed_no_del_key)
  from returned(4) cb(1) other self ne show ?thesis
    by (auto simp: keys_drawn_clear_fields)
qed

lemma run_keys_step:
  assumes "keeps_removed run"
  shows "keys_drawn w \<Longrightarrow>
    keys_drawn (fst (snd (run_keys run ks w))) \<and>
    (removed h w \<longrightarrow>
       removed h (fst (snd (run_keys run ks w))) \<and>
       applications h (snd (snd (run_keys run ks w))) = 0) \<and>
    applications h (snd (snd (run_keys run ks w))) \<le> 1 \<and>
    (0 < applications h (snd (snd (run_keys run ks w))) \<longrightarrow>
       removed h (fst (snd (run_keys run ks w))))"
proof (induction ks arbitrary: w)
  case Nil
  then show ?case by simp
next
  case (Cons k ks)
  show ?case
  proof (cases "map_of (finalizer_registry w) k")
    case None
    with Cons show ?thesis by simp
  next
    case (Some g)
    obtain r w' evs where call: "Finalize_call run g w = (r, w', evs)"
      by (cases "Finalize_call run g w") auto
    from call_step [OF assms Cons.prems, where g = g and h = h] call
    have step: "keys_drawn w'" "\<not> removed h w \<or> (removed h w' \<and> applications h evs = 0)"
      "applications h evs \<le> 1" "applications h evs = 0 \<or> removed h w'"
      by auto
    from Cons.IH [OF step(1)]
    have rest: "keys_drawn (fst (snd (run_keys run ks w')))"
      "\<not> removed h w' \<or> (removed h (fst (snd (run_keys run ks w'))) \<and>
         applications h (snd (snd (run_keys run ks w'))) = 0)"
      "applications h (snd (snd (run_keys run ks w'))) \<le> 1"
      "applications h (snd (snd (run_keys run ks w'))) = 0 \<or>
         removed h (fst (snd (run_keys run ks w')))"
      by auto
    show ?thesis
      using Some call step rest
      by (cases r) (auto split: if_splits)
  qed
qed

lemma run_finalizers_step:
  assumes "keeps_removed run" and "keys_drawn w"
  shows "keys_drawn (fst (snd (run_finalizers run m w))) \<and>
    (removed h w \<longrightarrow>
       removed h (fst (snd (run_finalizers run m w))) \<and>
       applications h (snd (snd (run_finalizers run m w))) = 0) \<and>
    applications h (snd (snd (run_finalizers run m w))) \<le> 1 \<and>
    (0 < applications h (snd (snd (run_finalizers run m w))) \<longrightarrow>
       removed h (fst (snd (run_finalizers run m w))))"
proof -
  obtain r w' evs where rk: "run_keys run (sorted_keys m w) w = (r, w', evs)"
    by (cases "run_keys run (sorted_keys m w) w") auto
  from run_keys_step [OF assms, where h = h and ks = "sorted_keys m w"] rk
  show ?thesis
    by (cases r) (auto simp: run_finalizers_def removed_registry_empty)
qed

lemma cancel_step:
  assumes "keys_drawn w"
  shows "keys_drawn (Finalize_cancel g w)" and "removed h w \<Longrightarrow> removed h (Finalize_cancel g w)"
    and "h < length (objs w) \<Longrightarrow> removed h (Finalize_cancel h w)"
proof -
  show "keys_drawn (Finalize_cancel g w)"
    using assms
    by (auto simp: Finalize_cancel_def keys_drawn_clear_fields split: option.splits
        dest: keys_drawn_del_key)
  show "removed h (Finalize_cancel g w)" if "removed h w"
    using that
    by (auto simp: Finalize_cancel_def split: option.splits
        dest: removed_del_key_other intro: removed_clear_fields)
  show "removed h (Finalize_cancel h w)" if "h < length (objs w)"
  proof (cases "del_key (objs w ! h) w")
    case None
    with that show ?thesis
      by (auto simp: Finalize_cancel_def removed_def still_active_def del_key_def
          split: option.splits)
  next
    case (Some kw)
    obtain k w1 where "kw = (k, w1)" by (cases kw)
    with Some that removed_after_del_key [where h = h and w = w and k = k and ?w1.0 = w1]
    show ?thesis
      by (simp add: Finalize_cancel_def removed_clear_fields)
  qed
qed

lemma exec_op_step:
  assumes "keeps_removed run" and "keys_drawn w"
  shows "keys_drawn (fst (exec_op run x w)) \<and>
    (removed h w \<longrightarrow>
       removed h (fst (exec_op run x w)) \<and> applications h (snd (exec_op run x w)) = 0) \<and>
    applications h (snd (exec_op run x w)) \<le> 1 \<and>
    (0 < applications h (snd (exec_op run x w)) \<longrightarrow> removed h (fst (exec_op run x w)))"
proof (cases x)
  case (Invoke g)
  with call_step [OF assms, where g = g and h = h] show ?thesis by simp
next
  case (Cancel g)
  with cancel_step(1) [OF assms(2), where g = g]
    cancel_step(2) [OF assms(2), where g = g and h = h]
  show ?thesis by simp
next
  case (Run_finalizers m)
  with run_finalizers_step [OF assms, where m = m and h = h] show ?thesis by simp
qed

lemma exec_ops_step:
  assumes "keeps_removed run"
  shows "keys_drawn w \<Longrightarrow>
    (removed h w \<longrightarrow> applications h (snd (exec_ops run xs w)) = 0) \<and>
    applications h (snd (exec_ops run xs w)) \<le> 1"
proof (induction xs arbitrary: w)
  case Nil
  show ?case by simp
next
  case (Cons x xs)
  obtain w' evs where step: "exec_op run x w = (w', evs)" by (cases "exec_op run x w")
  from exec_op_step [OF assms Cons.prems, where x = x and h = h] step
  have s: "keys_drawn w'" "\<not> removed h w \<or> (removed h w' \<and> applications h evs = 0)"
    "applications h evs \<le> 1" "applications h evs = 0 \<or> removed h w'"
    by auto
  from Cons.IH [OF s(1)]
  have r: "\<not> removed h w' \<or> applications h (snd (exec_ops run xs w')) = 0"
    "applications h (snd (exec_ops run xs w')) \<le> 1"
    by auto
  show ?case using step s r by (auto split: prod.splits)
qed

lemma call_when_removed:
  "removed h w \<Longrightarrow>
   Finalize_call run h w = (Inr PyNone, w, [Log ''finalizer no longer registered''])"
  by (auto simp: removed_def Finalize_call_def still_active_def del_key_def split: option.splits)

lemma cancel_when_removed: "removed h w \<Longrightarrow> Finalize_cancel h w = w"
  by (auto simp: removed_def Finalize_cancel_def still_active_def del_key_def split: option.splits)

lemma call_self_removed:
  assumes "keeps_removed run" and "keys_drawn w" and "h < length (objs w)"
  shows "removed h (fst (snd (Finalize_call run h w)))"
proof (cases run h w rule: Finalize_call_cases)
  case invalid
  with assms(3) show ?thesis by simp
next
  case absent
  then show ?thesis
    by (auto simp: removed_def still_active_def del_key_def split: option.splits)
next
  case (foreign k w1)
  with removed_after_del_key [OF assms(3) foreign(2)] show ?thesis
    by (simp add: removed_clear_fields)
next
  case (broken k w1)
  with removed_after_del_key [OF assms(3) broken(2)] show ?thesis by simp
next
  case (raised k w1 cb args kw e w2)
  from assms(2) raised(2) have "keys_drawn w1" by (rule keys_drawn_del_key)
  from keeps_removedD(2) [OF assms(1) this raised(3) removed_after_del_key [OF assms(3) raised(2)]]
    raised(4)
  show ?thesis by simp
next
  case (returned k w1 cb args kw res w2)
  from assms(2) returned(2) have "keys_drawn w1" by (rule keys_drawn_del_key)
  from keeps_removedD(2) [OF assms(1) this returned(3)
      removed_after_del_key [OF assms(3) returned(2)]] returned(4)
  show ?thesis by (simp add: removed_clear_fields)
qed

lemma init_keeps:
  assumes "keys_drawn w"
  shows "keys_drawn (snd (Finalize_init obj cb args kwargs p w))"
    and "removed h w \<Longrightarrow> removed h (snd (Finalize_init obj cb args kwargs p w))"
proof -
  let ?k = "(priority_of p, finalizer_counter w)"
  have store_k: "keys_drawn (snd (Finalize_store obj cb args kwargs p w))"
    using assms by (auto simp: keys_drawn_def Finalize_store_result less_Suc_eq)
  have store_r: "removed h (snd (Finalize_store obj cb args kwargs p w))" if r: "removed h w"
  proof -
    from r have v: "h < length (objs w)" by (simp add: removed_def)
    then have m: "objs w ! h \<in> set (objs w)" by simp
    have "map_of (AList.update ?k (length (objs w)) (finalizer_registry w)) k = None"
      if "fin_key (objs w ! h) = Some k" for k
    proof -
      from that m assms have "snd k < finalizer_counter w"
        unfolding keys_drawn_def by blast
      then have "k \<noteq> ?k" by auto
      moreover from r that v have "map_of (finalizer_registry w) k = None"
        by (simp add: removed_def still_active_def)
      ultimately show ?thesis by (simp add: AList.update_conv')
    qed
    with v show ?thesis
      by (auto simp: removed_def still_active_def Finalize_store_result nth_append
          split: option.splits)
  qed
  show "keys_drawn (snd (Finalize_init obj cb args kwargs p w))"
    using assms store_k by (auto simp: init_cases)
  show "removed h (snd (Finalize_init obj cb args kwargs p w))" if "removed h w"
    using that store_r by (auto simp: init_cases)
qed

lemma keeps_removed_example: "keeps_removed run_example"
  by (auto simp: keeps_removed_def run_example_def cancel_step(1,2) init_keeps)

lemma world_register_eq:
  "world_register = world0\<lparr>
     finalizer_registry := [((Some 0, 0), 0)], finalizer_counter := 1,
     objs := [\<lparr> fin_weakref = None, fin_callback = Some ''register'', fin_args = Some [],
                fin_kwargs = Some [], fin_key = Some (Some 0, 0), fin_pid = 4711 \<rparr>] \<rparr>"
  by (simp add: world_register_def register_each_def world0_def Finalize_init_def
      Finalize_store_def Let_def)

lemma keys_drawn_register: "keys_drawn world_register"
  by (simp add: keys_drawn_def world_register_eq world0_def)

lemma exec_ops_register:
  "snd (exec_ops run_example [Invoke 0, Invoke 0, Run_finalizers None, Cancel 1, Invoke 1, Invoke 0]
     world_register)
   = [Log ''finalizer calling %s with args %s and kwargs %s'',
      Apply 0 ''register'' [] [] (Inr PyNone),
      Log ''finalizer no longer registered'',
      Calling (Some 0, 1) 1,
      Log ''finalizer calling %s with args %s and kwargs %s'',
      Apply 1 ''close'' [] [] (Inr PyNone),
      Log ''finalizer no longer registered'',
      Log ''finalizer no longer registered'']"
  by (simp add: world_register_eq world0_def Finalize_init_def Finalize_store_def
      Finalize_call_def Finalize_cancel_def del_key_def clear_fields_def run_example_def
      run_finalizers_def sorted_keys_def selected_def Let_def)



lemma consistent_store:
  assumes "registry_consistent w" and "counter_fresh w"
  shows "registry_consistent (snd (Finalize_store obj cb args kwargs p w))"
proof -
  let ?k = "(priority_of p, finalizer_counter w)"
  from assms(2) have new: "?k \<notin> fst ` set (finalizer_registry w)"
    by (rule counter_fresh_new_key)
  have old: "snd q < length (objs w) \<and> fin_key (objs w ! snd q) = Some (fst q)"
    if "q \<in> set (finalizer_registry w)" for q
    using that assms(1) by (simp add: registry_consistent_def)
  from assms(1) new have "distinct (map fst (finalizer_registry w @ [(?k, length (objs w))]))"
    by (auto simp: registry_consistent_def)
  with new old show ?thesis
    by (auto simp: registry_consistent_def Finalize_store_result update_fresh nth_append
        less_Suc_eq)
qed



subsection \<open>At most one application of a callback (C1)\<close>

text \<open>
  Claim C1. Whatever sequence of invocations, cancellations and batch runs is executed,
  the callback of a finalizer \<open>h\<close> is applied at most once. After an invocation or a
  cancellation of \<open>h\<close> it is out of the registry; and once it is out, invoking it returns
  \<^verbatim>\<open>None\<close> with the diagnostic line only, no callback applied and the world unchanged,
  and cancelling it changes nothing. The callbacks are any that keep the keys drawn from the
  counter and a removed finalizer removed, which covers callbacks that themselves create
  and cancel finalizers.
\<close>

theorem callback_at_most_once:
  assumes "keeps_removed run" and "keys_drawn w"
  shows "applications h (snd (exec_ops run xs w)) \<le> 1 \<and>
    (h < length (objs w) \<longrightarrow>
       removed h (fst (snd (Finalize_call run h w))) \<and> removed h (Finalize_cancel h w)) \<and>
    (removed h w \<longrightarrow>
       Finalize_call run h w = (Inr PyNone, w, [Log ''finalizer no longer registered'']) \<and>
       Finalize_cancel h w = w)"
  using exec_ops_step [OF assms, where h = h and xs = xs] call_self_removed [OF assms, of h]
    cancel_step(3) [OF assms(2), of h]
  by (simp add: call_when_removed cancel_when_removed)

text \<open>
  Claim C1 where the callback of the first finalizer creates a second one: invocations,
  a full run and a cancellation apply each callback once.
\<close>

theorem callback_at_most_once_witness:
  "keeps_removed run_example \<and> keys_drawn world_register \<and>
   applications 0 (snd (exec_ops run_example
     [Invoke 0, Invoke 0, Run_finalizers None, Cancel 1, Invoke 1, Invoke 0] world_register)) = 1 \<and>
   applications 1 (snd (exec_ops run_example
     [Invoke 0, Invoke 0, Run_finalizers None, Cancel 1, Invoke 1, Invoke 0] world_register)) = 1 \<and>
   removed 0 (fst (snd (Finalize_call run_example 0 world_register))) \<and>
   Finalize_call run_example 0 (fst (snd (Finalize_call run_example 0 world_register)))
     = (Inr PyNone, fst (snd (Finalize_call run_example 0 world_register)),
        [Log ''finalizer no longer registered'']) \<and>
   Finalize_cancel 0 (fst (snd (Finalize_call run_example 0 world_register)))
     = fst (snd (Finalize_call run_example 0 world_register))"
proof -
  have v: "0 < length (objs world_register)" by (simp add: world_register_eq world0_def)
  have a: "applications 0 (snd (exec_ops run_example
     [Invoke 0, Invoke 0, Run_finalizers None, Cancel 1, Invoke 1, Invoke 0] world_register)) = 1"
    "applications 1 (snd (exec_ops run_example
     [Invoke 0, Invoke 0, Run_finalizers None, Cancel 1, Invoke 1, Invoke 0] world_register)) = 1"
    using exec_ops_register by simp_all
  note once = callback_at_most_once [OF keeps_removed_example]
  from once [OF keys_drawn_register, of 0 "[]"] v
  have r: "removed 0 (fst (snd (Finalize_call run_example 0 world_register)))" by blast
  have k: "keys_drawn (fst (snd (Finalize_call run_example 0 world_register)))"
    using call_step [OF keeps_removed_example keys_drawn_register, of 0 0] by blast
  from once [OF k, of 0 "[]"] r
  have "Finalize_call run_example 0 (fst (snd (Finalize_call run_example 0 world_register)))
     = (Inr PyNone, fst (snd (Finalize_call run_example 0 world_register)),
        [Log ''finalizer no longer registered''])"
    "Finalize_cancel 0 (fst (snd (Finalize_call run_example 0 world_register)))
     = fst (snd (Finalize_call run_example 0 world_register))"
    by blast+
  with a r keeps_removed_example keys_drawn_register show ?thesis by blast
qed

subsection \<open>Order of a batch run (C2)\<close>




subsection \<open>The exit function (C3)\<close>



subsection \<open>Invocation in another process (C4)\<close>

text \<open>
  Claim C4. When the process id recorded in a finalizer differs from the current one, its
  invocation returns \<^verbatim>\<open>None\<close>, leaves its key out of the registry, applies no
  callback, and does not depend on what the callbacks do.
\<close>

theorem Finalize_call_other_process:
  assumes "self < length (objs w)" and "fin_pid (objs w ! self) \<noteq> getpid w"
  shows "fst (Finalize_call run self w) = Inr PyNone \<and>
    (case fin_key (objs w ! self) of
       None \<Rightarrow> True
     | Some k \<Rightarrow> map_of (finalizer_registry (fst (snd (Finalize_call run self w)))) k = None) \<and>
    \<not> still_active self (fst (snd (Finalize_call run self w))) \<and>
    filter (applies h) (snd (snd (Finalize_call run self w))) = [] \<and>
    Finalize_call run self w = Finalize_call run' self w"
  using assms
  by (auto simp: Finalize_call_def del_key_def clear_fields_def still_active_def Let_def
      map_of_delete_same split: option.splits)

text \<open>
  Claim C4 in a forked child: the finalizer of process 4711 invoked in process 4712.
\<close>

theorem Finalize_call_other_process_witness:
  "0 < length (objs world1_child) \<and> fin_pid (objs world1_child ! 0) \<noteq> getpid world1_child \<and>
   still_active 0 world1_child \<and>
   Finalize_call run_example 0 world1_child
     = (Inr PyNone,
        world1_child\<lparr> finalizer_registry := [],
          objs := [\<lparr> fin_weakref = None, fin_callback = None, fin_args = None,
                     fin_kwargs = None, fin_key = None, fin_pid = 4711 \<rparr>] \<rparr>,
        [Log ''finalizer ignored because different process''])"
proof -
  have a: "0 < length (objs world1_child)"
    and b: "fin_pid (objs world1_child ! 0) \<noteq> getpid world1_child"
    and c: "still_active 0 world1_child"
    by (simp_all add: world1_child_def world1_eq world0_def still_active_def)
  have d: "Finalize_call run_example 0 world1_child
     = (Inr PyNone,
        world1_child\<lparr> finalizer_registry := [],
          objs := [\<lparr> fin_weakref = None, fin_callback = None, fin_args = None,
                     fin_kwargs = None, fin_key = None, fin_pid = 4711 \<rparr>] \<rparr>,
        [Log ''finalizer ignored because different process''])"
    by (simp add: world1_child_def world1_eq world0_def
        Finalize_call_def del_key_def clear_fields_def Let_def)
  from Finalize_call_other_process [OF a b, of run_example 0 run_example] a b c d
  show ?thesis by simp
qed

subsection \<open>The registry after a full run (C5)\<close>



subsection \<open>Attributes after an invocation (C6)\<close>

text \<open>
  Claim C6, as stated, fails: the finalizer is active and owned by the current process,
  its callback raises \<^verbatim>\<open>RuntimeError\<close>, and afterwards all five attributes still
  hold their values.
\<close>

theorem Finalize_call_raise_counterexample:
  "still_active 0 world_boom \<and> fin_pid (objs world_boom ! 0) = getpid world_boom \<and>
   fst (Finalize_call run_example 0 world_boom) = Inl (Exception_subclass ''RuntimeError'') \<and>
   objs (fst (snd (Finalize_call run_example 0 world_boom)))
     = [\<lparr> fin_weakref = Some 7, fin_callback = Some ''boom'', fin_args = Some [PyInt 3],
          fin_kwargs = Some [], fin_key = Some (Some 0, 0), fin_pid = 4711 \<rparr>]"
  by (simp add: world_boom_eq world0_def
      still_active_def Finalize_call_def del_key_def run_example_def Let_def)

text \<open>
  Claim C6, amended. For an active finalizer of the current process: when the callback
  returns, the invocation returns its value and the five attributes are \<^verbatim>\<open>None\<close>
  afterwards; when the callback raises, the same exception leaves the invocation and
  the world is the one the callback left, no attribute cleared.
\<close>

theorem Finalize_call_clears_on_return:
  assumes "self < length (objs w)"
    and "fin_key (objs w ! self) = Some k"
    and "map_of (finalizer_registry w) k \<noteq> None"
    and "fin_pid (objs w ! self) = getpid w"
    and "fin_callback (objs w ! self) = Some cb"
    and "fin_args (objs w ! self) = Some args"
    and "fin_kwargs (objs w ! self) = Some kw"
    and "w1 = w\<lparr> finalizer_registry := AList.delete k (finalizer_registry w) \<rparr>"
  shows "(case run cb args kw w1 of
      (Inr res, w2) \<Rightarrow>
         fst (Finalize_call run self w) = Inr res \<and>
         fst (snd (Finalize_call run self w)) = clear_fields self w2 \<and>
         (self < length (objs w2) \<longrightarrow>
            objs (fst (snd (Finalize_call run self w))) ! self
              = \<lparr> fin_weakref = None, fin_callback = None, fin_args = None,
                  fin_kwargs = None, fin_key = None, fin_pid = fin_pid (objs w2 ! self) \<rparr>)
    | (Inl e, w2) \<Rightarrow>
         fst (Finalize_call run self w) = Inl e \<and>
         fst (snd (Finalize_call run self w)) = w2)"
proof -
  from assms have d: "del_key (objs w ! self) w = Some (k, w1)"
    by (auto simp: del_key_def split: option.splits)
  from assms have p: "fin_pid (objs w ! self) = getpid w1" by simp
  obtain r w2 where rw: "run cb args kw w1 = (r, w2)" by (cases "run cb args kw w1")
  from assms(1) have v: "\<not> length (objs w) \<le> self" by simp
  show ?thesis
  proof (cases r)
    case (Inl e)
    with d p rw v assms(5-7) show ?thesis by (simp add: Finalize_call_def)
  next
    case (Inr res)
    with d p rw v assms(5-7) show ?thesis by (simp add: Finalize_call_def clear_fields_def)
  qed
qed

text \<open>
  The amended claim C6 at the finalizer of \<open>world1\<close>, whose callback returns.
\<close>

theorem Finalize_call_clears_on_return_witness:
  "0 < length (objs world1) \<and> fin_key (objs world1 ! 0) = Some (Some 0, 0) \<and>
   map_of (finalizer_registry world1) (Some 0, 0) = Some 0 \<and>
   fin_pid (objs world1 ! 0) = getpid world1 \<and>
   fin_callback (objs world1 ! 0) = Some ''close'' \<and>
   fst (Finalize_call run_example 0 world1) = Inr PyNone \<and>
   objs (fst (snd (Finalize_call run_example 0 world1)))
     = [\<lparr> fin_weakref = None, fin_callback = None, fin_args = None,
          fin_kwargs = None, fin_key = None, fin_pid = 4711 \<rparr>]"
proof -
  have h: "0 < length (objs world1)" "fin_key (objs world1 ! 0) = Some (Some 0, 0)"
    "map_of (finalizer_registry world1) (Some 0, 0) \<noteq> None"
    "fin_pid (objs world1 ! 0) = getpid world1"
    "fin_callback (objs world1 ! 0) = Some ''close''"
    "fin_args (objs world1 ! 0) = Some [PyInt 3]"
    "fin_kwargs (objs world1 ! 0) = Some []"
    by (simp_all add: world1_eq world0_def)
  have r: "run_example ''close'' [PyInt 3] []
      (world1\<lparr> finalizer_registry := AList.delete (Some 0, 0) (finalizer_registry world1) \<rparr>)
     = (Inr PyNone,
        world1\<lparr> finalizer_registry := AList.delete (Some 0, 0) (finalizer_registry world1) \<rparr>)"
    by (simp add: run_example_def)
  have o: "objs world1 = [\<lparr> fin_weakref = None, fin_callback = Some ''close'',
      fin_args = Some [PyInt 3], fin_kwargs = Some [], fin_key = Some (Some 0, 0),
      fin_pid = 4711 \<rparr>]"
    "map_of (finalizer_registry world1) (Some 0, 0) = Some 0"
    by (simp_all add: world1_eq world0_def)
  from Finalize_call_clears_on_return [OF h refl, of run_example] r o h
  show ?thesis by (simp add: clear_fields_def)
qed

subsection \<open>Exceptions in the runners (C7)\<close>




subsection \<open>Order of the after-fork hooks (C8)\<close>



subsection \<open>Registration (C9, C10)\<close>

text \<open>
  Claim C9, as stated, fails: a priority is present in both calls (and an owner in the
  second), yet \<^verbatim>\<open>Finalize(None, close, exitpriority=1.5)\<close> and a call whose owner
  does not support weak references raise \<^verbatim>\<open>TypeError\<close>.
\<close>

theorem Finalize_init_counterexample:
  "fst (Finalize_init None ''close'' [] None (PyFloat ''1.5'') world0) = Inl TypeError \<and>
   fst (Finalize_init (Some (Owner 7 False)) ''close'' [] None (PyInt 0) world0) = Inl TypeError"
  by (simp add: Finalize_init_def)

text \<open>
  Claim C9, amended. Registration raises \<^verbatim>\<open>ValueError\<close> exactly when owner and
  priority are both absent. It succeeds exactly when the priority is \<^verbatim>\<open>None\<close> or an
  \<^verbatim>\<open>int\<close>, and either the owner is present and supports weak references, or it is
  absent and the priority is present. On success the new object is stored under the key
  (priority, counter), the counter advances by one, and the finalizer is active; when
  all keys of the registry are below the counter, the key is new, the entry is appended
  to the registry, the keys stay below the counter, and a consistent registry stays
  consistent.
\<close>

theorem Finalize_init_outcome:
  "(fst (Finalize_init obj cb args kwargs p w) = Inl ValueError \<longleftrightarrow> obj = None \<and> p = PyNone) \<and>
   ((\<exists>h. fst (Finalize_init obj cb args kwargs p w) = Inr h) \<longleftrightarrow>
      (p = PyNone \<or> isinstance_int p) \<and>
      (case obj of None \<Rightarrow> p \<noteq> PyNone | Some ob \<Rightarrow> weakrefable ob)) \<and>
   (\<forall>h. fst (Finalize_init obj cb args kwargs p w) = Inr h \<longrightarrow>
      h = length (objs w) \<and>
      finalizer_counter (snd (Finalize_init obj cb args kwargs p w)) = Suc (finalizer_counter w) \<and>
      map_of (finalizer_registry (snd (Finalize_init obj cb args kwargs p w)))
        (priority_of p, finalizer_counter w) = Some h \<and>
      fin_key (objs (snd (Finalize_init obj cb args kwargs p w)) ! h)
        = Some (priority_of p, finalizer_counter w) \<and>
      still_active h (snd (Finalize_init obj cb args kwargs p w)) \<and>
      (counter_fresh w \<longrightarrow>
         (priority_of p, finalizer_counter w) \<notin> fst ` set (finalizer_registry w) \<and>
         finalizer_registry (snd (Finalize_init obj cb args kwargs p w))
           = finalizer_registry w @ [((priority_of p, finalizer_counter w), h)] \<and>
         counter_fresh (snd (Finalize_init obj cb args kwargs p w)) \<and>
         (registry_consistent w \<longrightarrow>
            registry_consistent (snd (Finalize_init obj cb args kwargs p w)))))"
proof -
  consider (bad_type) "p \<noteq> PyNone \<and> \<not> isinstance_int p"
    | (no_trigger) "p = PyNone" "obj = None"
    | (no_weakref) ob where "p = PyNone \<or> isinstance_int p" "obj = Some ob" "\<not> weakrefable ob"
    | (stored) "p = PyNone \<or> isinstance_int p"
        "case obj of None \<Rightarrow> p \<noteq> PyNone | Some ob \<Rightarrow> weakrefable ob"
    by (cases obj) auto
  then show ?thesis
  proof cases
    case bad_type
    then have "Finalize_init obj cb args kwargs p w = (Inl TypeError, w)"
      by (simp add: init_cases)
    with bad_type show ?thesis by auto
  next
    case no_trigger
    then have "Finalize_init obj cb args kwargs p w = (Inl ValueError, w)"
      by (simp add: init_cases)
    with no_trigger show ?thesis by auto
  next
    case no_weakref
    then have "Finalize_init obj cb args kwargs p w = (Inl TypeError, w)"
      by (auto simp: init_cases)
    with no_weakref show ?thesis by auto
  next
    case stored
    then have eq: "Finalize_init obj cb args kwargs p w = Finalize_store obj cb args kwargs p w"
      by (auto simp: init_cases split: option.splits)
    from stored have nv: "\<not> (obj = None \<and> p = PyNone)" by (auto split: option.splits)
    show ?thesis
      unfolding eq
      using stored nv store_active [of w obj cb args kwargs p]
        store_lookup [of obj cb args kwargs p w] store_append [of w obj cb args kwargs p]
        counter_fresh_store [of w obj cb args kwargs p]
        counter_fresh_new_key [of w "priority_of p"]
        consistent_store [of w obj cb args kwargs p]
      by (simp add: store_fields)
  qed
qed

text \<open>
  The amended claim C9 at \<^verbatim>\<open>Finalize(None, close, args=(3,), exitpriority=0)\<close> in the
  fresh module.
\<close>

theorem Finalize_init_outcome_witness:
  "counter_fresh world0 \<and>
   Finalize_init None ''close'' [] None PyNone world0 = (Inl ValueError, world0) \<and>
   fst (Finalize_init None ''close'' [PyInt 3] None (PyInt 0) world0) = Inr 0 \<and>
   finalizer_counter world1 = 1 \<and>
   finalizer_registry world1 = [((Some 0, 0), 0)] \<and>
   still_active 0 world1 \<and>
   registry_consistent world0 \<and> registry_consistent world1"
proof -
  have f: "counter_fresh world0" "registry_consistent world0"
    by (simp_all add: counter_fresh_def registry_consistent_def world0_def)
  have o: "objs world0 = []" "finalizer_counter world0 = 0" "finalizer_registry world0 = []"
    by (simp_all add: world0_def)
  have v: "Finalize_init None ''close'' [] None PyNone world0 = (Inl ValueError, world0)"
    by (simp add: Finalize_init_def)
  from Finalize_init_outcome [of None "''close''" "[PyInt 3]" None "PyInt 0" world0] f o v
  show ?thesis by (auto simp: world1_def)
qed

text \<open>
  Claim C10. A priority that is neither \<^verbatim>\<open>None\<close> nor an \<^verbatim>\<open>int\<close> makes
  \<^verbatim>\<open>Finalize\<close> raise \<^verbatim>\<open>TypeError\<close>, whatever the owner, and the world (registry,
  counter, objects) is exactly as before.
\<close>

theorem Finalize_init_rejects_non_int:
  "exitpriority \<noteq> PyNone \<Longrightarrow> \<not> isinstance_int exitpriority \<Longrightarrow>
   Finalize_init obj callback args kwargs exitpriority w = (Inl TypeError, w)"
  by (simp add: Finalize_init_def)

text \<open>
  Claim C10 at the priorities \<^verbatim>\<open>1.5\<close> and \<^verbatim>\<open>'high'\<close>.
\<close>

theorem Finalize_init_rejects_non_int_witness:
  "PyFloat ''1.5'' \<noteq> PyNone \<and> \<not> isinstance_int (PyFloat ''1.5'') \<and>
   Finalize_init (Some (Owner 7 True)) ''close'' [] None (PyFloat ''1.5'') world0
     = (Inl TypeError, world0) \<and>
   Finalize_init None ''close'' [] None (PyStr ''high'') world0 = (Inl TypeError, world0)"
  using Finalize_init_rejects_non_int [of "PyFloat ''1.5''" "Some (Owner 7 True)" "''close''" "[]" None world0]
    Finalize_init_rejects_non_int [of "PyStr ''high''" None "''close''" "[]" None world0]
  by simp

end
